theory Spec2Isabelle
  imports Main
begin

section \<open>The device pool of NodeServer: data model\<close>

text \<open>
  The embedding follows \<^verbatim>\<open>src/models/Device.js\<close> (the Mongoose schema) and
  \<^verbatim>\<open>src/routes/api/devices.js\<close> (the route handlers). An ObjectId is an opaque
  identifier, compared only for equality (the handlers compare the hexadecimal strings,
  which are in bijection with the ids); a date is the number of milliseconds since the
  epoch, as \<^verbatim>\<open>Date.now()\<close> returns it.
\<close>

type_synonym oid = nat
type_synonym date = int

text \<open>
  An element of \<^verbatim>\<open>feedbacks\<close> in the schema. The \<^verbatim>\<open>_id\<close> that Mongoose gives to
  each element is read by no handler and is left out.
\<close>

record feedback =
  fb_user :: oid
  fb_name :: string
  fb_rating :: int
  fb_text :: "string option"
  fb_date :: date

text \<open>A document of the \<^verbatim>\<open>device\<close> collection; \<open>dev_id\<close> is its \<^verbatim>\<open>_id\<close>.\<close>

record device =
  dev_id :: oid
  model :: string
  os :: string
  manufacturer :: string
  lastCheckedOutBy :: "oid option"
  lastCheckedOutDate :: "date option"
  lastCheckedInDate :: "date option"
  registeredBy :: oid
  registeredDate :: date
  isCheckedOut :: bool
  feedbacks :: "feedback list"

text \<open>
  The \<^verbatim>\<open>User\<close> model is required by the handlers but is not part of the sources; the
  handlers read only \<^verbatim>\<open>user.id\<close> and \<^verbatim>\<open>user.name\<close> of the document found.
\<close>

record user =
  user_id :: oid
  user_name :: string

text \<open>
  The answers of the handlers that are not a success, one constructor per
  \<^verbatim>\<open>res.status(...)\<close> of the source:
  \<^item> \<open>ValidationError\<close>: 400 with the validator's error array;
  \<^item> \<open>CapacityExceeded\<close>: 400 \<^verbatim>\<open>There is no space for new devices.\<close>
  \<^item> \<open>NotFound\<close>: 404 \<^verbatim>\<open>Device not found\<close>
  \<^item> \<open>Forbidden\<close>: 401 \<^verbatim>\<open>User not authorized\<close>
  \<^item> \<open>DuplicateReview\<close>: 400 \<^verbatim>\<open>You already reviewd this device\<close>
  \<^item> \<open>ReviewNotFound\<close>: 400 \<^verbatim>\<open>Device has not yet been reviewed.\<close>
  \<^item> \<open>OutsideAdmissionWindow\<close>: 405
    \<^verbatim>\<open>You are not allowed to check out any device this time.\<close>
  \<^item> \<open>UserAlreadyHolding\<close>: 405 \<^verbatim>\<open>You already checked out another device.\<close>
  \<^item> \<open>AlreadyCheckedOut\<close>: 404 \<^verbatim>\<open>Device is already checked out.\<close>
  \<^item> \<open>NotCheckedOut\<close>: 404 \<^verbatim>\<open>Device isn't checked out.\<close>
  \<^item> \<open>NotHolder\<close>: 405 \<^verbatim>\<open>This deviced isn't checked out by you.\<close>
  \<^item> \<open>ServerError\<close>: 500 \<^verbatim>\<open>Server Error\<close>, the answer of every
    \<^verbatim>\<open>catch\<close> block: an exception thrown inside the handler.
\<close>

datatype error =
    ValidationError
  | CapacityExceeded
  | NotFound
  | Forbidden
  | DuplicateReview
  | ReviewNotFound
  | OutsideAdmissionWindow
  | UserAlreadyHolding
  | AlreadyCheckedOut
  | NotCheckedOut
  | NotHolder
  | ServerError

fun http_status :: "error \<Rightarrow> nat" where
  "http_status ValidationError = 400"
| "http_status CapacityExceeded = 400"
| "http_status NotFound = 404"
| "http_status Forbidden = 401"
| "http_status DuplicateReview = 400"
| "http_status ReviewNotFound = 400"
| "http_status OutsideAdmissionWindow = 405"
| "http_status UserAlreadyHolding = 405"
| "http_status AlreadyCheckedOut = 404"
| "http_status NotCheckedOut = 404"
| "http_status NotHolder = 405"
| "http_status ServerError = 500"

text \<open>The body of a successful answer (\<^verbatim>\<open>res.json(...)\<close>).\<close>

datatype body =
    DeviceBody device
  | DevicesBody "device list"
  | FeedbacksBody "feedback list"
  | MsgBody string

type_synonym response = "error + body"

section \<open>The collections\<close>

text \<open>
  A collection is the list of its documents in insertion order. \<open>findById\<close> is
  \<^verbatim>\<open>Device.findById\<close>: the first document with that \<^verbatim>\<open>_id\<close>, or \<open>None\<close> for
  JavaScript's \<^verbatim>\<open>null\<close>.
\<close>

definition findById :: "device list \<Rightarrow> oid \<Rightarrow> device option" where
  "findById devs i = find (\<lambda>d. dev_id d = i) devs"

definition findUserById :: "user list \<Rightarrow> oid \<Rightarrow> user option" where
  "findUserById us i = find (\<lambda>u. user_id u = i) us"

text \<open>
  \<^verbatim>\<open>Device.findOne({ lastCheckedOutBy: user.id, isCheckedOut: true })\<close>: the query
  of the checkout handler, and its filter as a predicate on a document.
\<close>

definition heldBy :: "oid \<Rightarrow> device \<Rightarrow> bool" where
  "heldBy u d = (lastCheckedOutBy d = Some u \<and> isCheckedOut d = True)"

definition findOneHeldBy :: "device list \<Rightarrow> oid \<Rightarrow> device option" where
  "findOneHeldBy devs u = find (heldBy u) devs"

text \<open>
  \<^verbatim>\<open>device.save()\<close> on a document that was read from the collection writes it back
  over the stored document with the same \<^verbatim>\<open>_id\<close>. The stored documents went
  through the schema when they were saved, so the validators that \<^verbatim>\<open>save()\<close> runs can
  only reject what the handler has just set.
\<close>

fun saveDevice :: "device list \<Rightarrow> device \<Rightarrow> device list" where
  "saveDevice [] d = []"
| "saveDevice (x # xs) d =
     (if dev_id x = dev_id d then d # xs else x # saveDevice xs d)"

text \<open>\<^verbatim>\<open>device.remove()\<close> deletes the stored document with that \<^verbatim>\<open>_id\<close>.\<close>

fun removeDevice :: "device list \<Rightarrow> device \<Rightarrow> device list" where
  "removeDevice [] d = []"
| "removeDevice (x # xs) d =
     (if dev_id x = dev_id d then xs else x # removeDevice xs d)"

text \<open>
  \<^verbatim>\<open>Device.find().sort({ date: -1 })\<close>: the schema has no path \<^verbatim>\<open>date\<close> on a
  device, so every document has the same (missing) sort key and the documents come back
  in the order of the collection.
\<close>

definition findAllSorted :: "device list \<Rightarrow> device list" where
  "findAllSorted devs = devs"

text \<open>
  \<^verbatim>\<open>new Date().getHours()\<close>: the hour of the day in local time. \<open>tz\<close> is what
  \<^verbatim>\<open>getTimezoneOffset()\<close> returns, the minutes by which UTC is ahead of local time.
\<close>

definition getHours :: "int \<Rightarrow> date \<Rightarrow> int" where
  "getHours tz t = ((t - tz * 60000) div 3600000) mod 24"

section \<open>The handlers\<close>

text \<open>
  Every handler takes the collections and the request and returns the device collection
  after the request together with the answer. The arguments \<open>uid\<close> and \<open>did\<close> are
  \<^verbatim>\<open>req.user.id\<close> (set by the \<^verbatim>\<open>auth\<close> middleware) and \<^verbatim>\<open>req.params.id\<close>
  (a well-formed ObjectId, by \<^verbatim>\<open>checkObjectId\<close>); \<open>now\<close> is the clock at the
  request, which \<^verbatim>\<open>new Date()\<close> and \<^verbatim>\<open>Date.now()\<close> read. Reading a property of
  \<^verbatim>\<open>null\<close> throws, and the \<^verbatim>\<open>catch\<close> block answers \<open>ServerError\<close>.
\<close>

text \<open>
  \<^verbatim>\<open>POST /\<close>. The three \<^verbatim>\<open>notEmpty()\<close> validators come first. \<open>loadTime\<close> is the
  value of \<^verbatim>\<open>Date.now()\<close> in \<^verbatim>\<open>default: Date.now()\<close> of the schema, an expression
  evaluated once, when the module is loaded. \<open>newId\<close> is the \<^verbatim>\<open>_id\<close> generated for the
  new document; the collection's unique index on \<^verbatim>\<open>_id\<close> makes \<^verbatim>\<open>save()\<close> throw on
  an id that is already stored.
\<close>

definition register ::
  "user list \<Rightarrow> date \<Rightarrow> device list \<Rightarrow> oid \<Rightarrow> string \<Rightarrow> string \<Rightarrow> string \<Rightarrow> oid
     \<Rightarrow> device list \<times> response" where
  "register us loadTime devs uid m o' mf newId =
     (if m = [] \<or> o' = [] \<or> mf = [] then (devs, Inl ValidationError)
      else if length devs \<ge> 10 then (devs, Inl CapacityExceeded)
      else
        (case findUserById us uid of
           None \<Rightarrow> (devs, Inl ServerError)
         | Some u \<Rightarrow>
          let newDevice = \<lparr>dev_id = newId, model = m, os = o', manufacturer = mf,
                 lastCheckedOutBy = None, lastCheckedOutDate = None,
                 lastCheckedInDate = None, registeredBy = user_id u,
                 registeredDate = loadTime, isCheckedOut = False, feedbacks = []\<rparr>
          in if list_ex (\<lambda>d. dev_id d = newId) devs then (devs, Inl ServerError)
             else (devs @ [newDevice], Inr (DeviceBody newDevice))))"

text \<open>\<^verbatim>\<open>GET /\<close>.\<close>

definition listDevices :: "device list \<Rightarrow> device list \<times> response" where
  "listDevices devs = (devs, Inr (DevicesBody (findAllSorted devs)))"

text \<open>\<^verbatim>\<open>DELETE /:id\<close>.\<close>

definition remove :: "device list \<Rightarrow> oid \<Rightarrow> oid \<Rightarrow> device list \<times> response" where
  "remove devs did uid =
     (case findById devs did of
        None \<Rightarrow> (devs, Inl NotFound)
      | Some d \<Rightarrow>
          if registeredBy d \<noteq> uid then (devs, Inl Forbidden)
          else (removeDevice devs d, Inr (MsgBody ''Device removed'')))"

text \<open>
  \<^verbatim>\<open>PUT /feedback/:id\<close>. The handler reads \<^verbatim>\<open>device.feedbacks\<close> without testing
  \<^verbatim>\<open>device\<close>. The new entry takes \<^verbatim>\<open>rating\<close> 5 and \<^verbatim>\<open>date\<close> \<^verbatim>\<open>Date.now\<close> (called
  when the entry is made) from the schema's defaults; \<^verbatim>\<open>name\<close> is required, so
  \<^verbatim>\<open>save()\<close> throws on an empty name.
\<close>

definition addFeedback ::
  "user list \<Rightarrow> device list \<Rightarrow> oid \<Rightarrow> oid \<Rightarrow> int option \<Rightarrow> string option \<Rightarrow> date
     \<Rightarrow> device list \<times> response" where
  "addFeedback us devs did uid rating txt now =
     (case findById devs did of
        None \<Rightarrow> (devs, Inl ServerError)
      | Some d \<Rightarrow>
          if list_ex (\<lambda>f. fb_user f = uid) (feedbacks d) then (devs, Inl DuplicateReview)
          else
            (case findUserById us uid of
               None \<Rightarrow> (devs, Inl ServerError)
             | Some u \<Rightarrow>
                 let entry = \<lparr>fb_user = uid, fb_name = user_name u,
                        fb_rating = (case rating of None \<Rightarrow> 5 | Some r \<Rightarrow> r),
                        fb_text = txt, fb_date = now\<rparr>;
                     d' = d\<lparr>feedbacks := entry # feedbacks d\<rparr>
                 in if user_name u = [] then (devs, Inl ServerError)
                    else (saveDevice devs d', Inr (FeedbacksBody (feedbacks d')))))"

text \<open>\<^verbatim>\<open>DELETE /feedback/:id\<close>, which reads \<^verbatim>\<open>device.feedbacks\<close> in the same way.\<close>

definition removeFeedback :: "device list \<Rightarrow> oid \<Rightarrow> oid \<Rightarrow> device list \<times> response" where
  "removeFeedback devs did uid =
     (case findById devs did of
        None \<Rightarrow> (devs, Inl ServerError)
      | Some d \<Rightarrow>
          if \<not> list_ex (\<lambda>f. fb_user f = uid) (feedbacks d) then (devs, Inl ReviewNotFound)
          else
            let d' = d\<lparr>feedbacks := filter (\<lambda>f. fb_user f \<noteq> uid) (feedbacks d)\<rparr>
            in (saveDevice devs d', Inr (FeedbacksBody (feedbacks d'))))"

text \<open>\<^verbatim>\<open>POST /checkout/:id\<close>.\<close>

definition checkOut ::
  "int \<Rightarrow> user list \<Rightarrow> device list \<Rightarrow> oid \<Rightarrow> oid \<Rightarrow> date \<Rightarrow> device list \<times> response" where
  "checkOut tz us devs did uid now =
     (let currentHours = getHours tz now in
      if currentHours < 15 \<or> currentHours > 17 then (devs, Inl OutsideAdmissionWindow)
      else
        (case findById devs did of
           None \<Rightarrow> (devs, Inl NotFound)
         | Some d \<Rightarrow>
          (case findUserById us uid of
             None \<Rightarrow> (devs, Inl ServerError)
           | Some u \<Rightarrow>
               (case findOneHeldBy devs (user_id u) of
                  Some anotherDevice \<Rightarrow> (devs, Inl UserAlreadyHolding)
                | None \<Rightarrow>
                    if isCheckedOut d then (devs, Inl AlreadyCheckedOut)
                    else
                      let d' = d\<lparr>isCheckedOut := True,
                                 lastCheckedOutBy := Some (user_id u),
                                 lastCheckedOutDate := Some now\<rparr>;
                          devs' = saveDevice devs d'
                      in (devs', Inr (DevicesBody (findAllSorted devs')))))))"

text \<open>
  \<^verbatim>\<open>POST /checkin/:id\<close>. The test \<^verbatim>\<open>device.lastCheckedOutBy != user.id\<close> compares
  the stored holder, which may be undefined, with the caller's id.
\<close>

definition checkIn ::
  "user list \<Rightarrow> device list \<Rightarrow> oid \<Rightarrow> oid \<Rightarrow> date \<Rightarrow> device list \<times> response" where
  "checkIn us devs did uid now =
     (case findById devs did of
        None \<Rightarrow> (devs, Inl NotFound)
      | Some d \<Rightarrow>
          if \<not> isCheckedOut d then (devs, Inl NotCheckedOut)
          else
            (case findUserById us uid of
               None \<Rightarrow> (devs, Inl ServerError)
             | Some u \<Rightarrow>
                 if lastCheckedOutBy d \<noteq> Some (user_id u) then (devs, Inl NotHolder)
                 else
                   let d' = d\<lparr>isCheckedOut := False, lastCheckedInDate := Some now\<rparr>;
                       devs' = saveDevice devs d'
                   in (devs', Inr (DevicesBody (findAllSorted devs')))))"

section \<open>Sequences of requests\<close>

text \<open>
  A request as the router receives it. Each one comes with the user collection and the
  clock at the moment it is served; \<open>tz\<close> and \<open>loadTime\<close> are fixed for the run of
  the server.
\<close>

datatype request =
    Register oid string string string oid
  | ListDevices
  | Remove oid oid
  | AddFeedback oid oid "int option" "string option"
  | RemoveFeedback oid oid
  | CheckOut oid oid
  | CheckIn oid oid

fun handle :: "int \<Rightarrow> date \<Rightarrow> device list \<Rightarrow> user list \<times> date \<times> request
    \<Rightarrow> device list \<times> response" where
  "handle tz loadTime devs (us, now, Register uid m o' mf newId) =
     register us loadTime devs uid m o' mf newId"
| "handle tz loadTime devs (us, now, ListDevices) = listDevices devs"
| "handle tz loadTime devs (us, now, Remove did uid) = remove devs did uid"
| "handle tz loadTime devs (us, now, AddFeedback did uid rating txt) =
     addFeedback us devs did uid rating txt now"
| "handle tz loadTime devs (us, now, RemoveFeedback did uid) = removeFeedback devs did uid"
| "handle tz loadTime devs (us, now, CheckOut did uid) = checkOut tz us devs did uid now"
| "handle tz loadTime devs (us, now, CheckIn did uid) = checkIn us devs did uid now"

text \<open>The collection after a sequence of requests, and the answers given on the way.\<close>

fun run :: "int \<Rightarrow> date \<Rightarrow> device list \<Rightarrow> (user list \<times> date \<times> request) list
    \<Rightarrow> device list" where
  "run tz loadTime devs [] = devs"
| "run tz loadTime devs (r # rs) = run tz loadTime (fst (handle tz loadTime devs r)) rs"

fun answers :: "int \<Rightarrow> date \<Rightarrow> device list \<Rightarrow> (user list \<times> date \<times> request) list
    \<Rightarrow> response list" where
  "answers tz loadTime devs [] = []"
| "answers tz loadTime devs (r # rs) =
     snd (handle tz loadTime devs r) # answers tz loadTime (fst (handle tz loadTime devs r)) rs"

section \<open>Properties of collections and requests\<close>

text \<open>Every ledger of the collection has at most one entry per reviewer.\<close>

definition oneReviewEach :: "device list \<Rightarrow> bool" where
  "oneReviewEach devs = list_all (\<lambda>d. distinct (map fb_user (feedbacks d))) devs"

text \<open>
  A registration whose three fields pass the validators and whose caller is a stored
  user; the id generated for the document of a registration; an answer that is a success.
\<close>

fun isValidRegistration :: "user list \<times> date \<times> request \<Rightarrow> bool" where
  "isValidRegistration (us, now, Register uid m o' mf newId) =
     (m \<noteq> [] \<and> o' \<noteq> [] \<and> mf \<noteq> [] \<and> findUserById us uid \<noteq> None)"
| "isValidRegistration (us, now, q) = False"

fun newIdOf :: "user list \<times> date \<times> request \<Rightarrow> oid option" where
  "newIdOf (us, now, Register uid m o' mf newId) = Some newId"
| "newIdOf (us, now, q) = None"

definition succeeded :: "response \<Rightarrow> bool" where
  "succeeded a = (case a of Inl e \<Rightarrow> False | Inr b \<Rightarrow> True)"

section \<open>Sample data\<close>

text \<open>Two users and two devices, used where a statement is run on concrete input.\<close>

definition alice :: user where
  "alice = \<lparr>user_id = 7, user_name = ''alice''\<rparr>"

definition bob :: user where
  "bob = \<lparr>user_id = 8, user_name = ''bob''\<rparr>"

definition phone :: device where
  "phone = \<lparr>dev_id = 1, model = ''Pixel'', os = ''Android'', manufacturer = ''Google'',
     lastCheckedOutBy = None, lastCheckedOutDate = None, lastCheckedInDate = None,
     registeredBy = 7, registeredDate = 1000, isCheckedOut = False, feedbacks = []\<rparr>"

definition tablet :: device where
  "tablet = \<lparr>dev_id = 2, model = ''iPad'', os = ''iOS'', manufacturer = ''Apple'',
     lastCheckedOutBy = None, lastCheckedOutDate = None, lastCheckedInDate = None,
     registeredBy = 8, registeredDate = 1000, isCheckedOut = False, feedbacks = []\<rparr>"

definition review :: "oid \<Rightarrow> string \<Rightarrow> int \<Rightarrow> feedback" where
  "review u n r = \<lparr>fb_user = u, fb_name = n, fb_rating = r, fb_text = None, fb_date = 2000\<rparr>"

definition phoneOut :: device where
  "phoneOut = phone\<lparr>isCheckedOut := True, lastCheckedOutBy := Some 7,
     lastCheckedOutDate := Some 57600000\<rparr>"

definition phoneBack :: device where
  "phoneBack = phoneOut\<lparr>isCheckedOut := False, lastCheckedInDate := Some 90000000\<rparr>"

text \<open>
  An afternoon of requests on an empty pool, the server in UTC: two registrations, then
  three checkout attempts between 16:00 and 16:01.
\<close>

definition afternoon :: "(user list \<times> date \<times> request) list" where
  "afternoon =
     [([alice, bob], 1000, Register 7 ''Pixel'' ''Android'' ''Google'' 1),
      ([alice, bob], 1000, Register 8 ''iPad'' ''iOS'' ''Apple'' 2),
      ([alice, bob], 57600000, CheckOut 1 7),
      ([alice, bob], 57600001, CheckOut 2 7),
      ([alice, bob], 57600002, CheckOut 1 8)]"

definition tabletOut :: device where
  "tabletOut = tablet\<lparr>isCheckedOut := True, lastCheckedOutBy := Some 7,
     lastCheckedOutDate := Some 57600000\<rparr>"

definition reviewedPhone :: device where
  "reviewedPhone = phone\<lparr>feedbacks := [review 8 ''bob'' 5]\<rparr>"

definition alicesReview :: feedback where
  "alicesReview = \<lparr>fb_user = 7, fb_name = ''alice'', fb_rating = 4,
     fb_text = Some ''good'', fb_date = 3000\<rparr>"

text \<open>
  A registration, then bob reviews the phone, tries to review it again, and alice
  reviews it.
\<close>

definition reviewing :: "(user list \<times> date \<times> request) list" where
  "reviewing =
     [([alice, bob], 1000, Register 7 ''Pixel'' ''Android'' ''Google'' 1),
      ([alice, bob], 2000, AddFeedback 1 8 (Some 5) None),
      ([alice, bob], 2500, AddFeedback 1 8 (Some 1) None),
      ([alice, bob], 3000, AddFeedback 1 7 (Some 4) (Some ''good''))]"

text \<open>Ten registrations by alice, and the pool they fill.\<close>

definition tenRegistrations :: "(user list \<times> date \<times> request) list" where
  "tenRegistrations =
     map (\<lambda>i. ([alice, bob], 1000, Register 7 ''Pixel'' ''Android'' ''Google'' i))
       [1, 2, 3, 4, 5, 6, 7, 8, 9, 10]"

definition fullPool :: "device list" where
  "fullPool = map (\<lambda>i. phone\<lparr>dev_id := i\<rparr>) [1, 2, 3, 4, 5, 6, 7, 8, 9, 10]"

lemmas sample_defs = alice_def bob_def phone_def tablet_def phoneOut_def

section \<open>Facts about the collection\<close>

lemma findById_SomeD: "findById devs i = Some d \<Longrightarrow> dev_id d = i \<and> d \<in> set devs"
  by (induction devs) (auto simp: findById_def split: if_splits)

lemma findById_saveDevice_same:
  "findById devs i = Some d \<Longrightarrow> dev_id d' = i \<Longrightarrow> findById (saveDevice devs d') i = Some d'"
  by (induction devs) (auto simp: findById_def split: if_splits)

lemma findById_saveDevice_other:
  "j \<noteq> dev_id d' \<Longrightarrow> findById (saveDevice devs d') j = findById devs j"
  by (induction devs) (auto simp: findById_def)

lemma map_dev_id_saveDevice: "map dev_id (saveDevice devs d') = map dev_id devs"
  by (induction devs) auto

lemma saveDevice_restore:
  "findById devs (dev_id d) = Some d \<Longrightarrow> dev_id d' = dev_id d \<Longrightarrow>
     saveDevice (saveDevice devs d') d = devs"
  by (induction devs) (auto simp: findById_def split: if_splits)

lemma filter_saveDevice_le:
  "length (filter P (saveDevice devs d')) \<le> length (filter P devs) + (if P d' then 1 else 0)"
  by (induction devs) auto

lemma filter_removeDevice_le:
  "length (filter P (removeDevice devs d)) \<le> length (filter P devs)"
  by (induction devs) auto

lemma filter_saveDevice_count:
  "findById devs (dev_id d') = Some d \<Longrightarrow>
     length (filter P (saveDevice devs d')) + (if P d then 1 else 0)
       = length (filter P devs) + (if P d' then 1 else 0)"
  by (induction devs) (auto simp: findById_def split: if_splits)

lemma findUserById_SomeD: "findUserById us i = Some u \<Longrightarrow> user_id u = i"
  by (induction us) (auto simp: findUserById_def split: if_splits)

lemma findOneHeldBy_None: "findOneHeldBy devs u = None \<longleftrightarrow> filter (heldBy u) devs = []"
  by (auto simp: findOneHeldBy_def find_None_iff filter_empty_conv)

lemma findOneHeldBy_None_iff:
  "findOneHeldBy devs u = None \<longleftrightarrow>
     \<not> list_ex (\<lambda>x. isCheckedOut x \<and> lastCheckedOutBy x = Some u) devs"
  by (auto simp: findOneHeldBy_def find_None_iff list_ex_iff heldBy_def)

lemma removeDevice_remove1:
  "findById devs (dev_id d) = Some d \<Longrightarrow> removeDevice devs d = remove1 d devs"
  by (induction devs) (auto simp: findById_def split: if_splits)

lemma length_removeDevice:
  "findById devs (dev_id d) = Some d \<Longrightarrow> length (removeDevice devs d) + 1 = length devs"
  by (induction devs) (auto simp: findById_def split: if_splits)

lemma findById_removeDevice_other:
  "j \<noteq> dev_id d \<Longrightarrow> findById (removeDevice devs d) j = findById devs j"
  by (induction devs) (auto simp: findById_def)

lemma findById_None_iff: "findById devs i = None \<longleftrightarrow> i \<notin> dev_id ` set devs"
  by (auto simp: findById_def find_None_iff)

lemma findById_removeDevice_same:
  "distinct (map dev_id devs) \<Longrightarrow> findById (removeDevice devs d) (dev_id d) = None"
  by (induction devs) (auto simp: findById_None_iff)

lemma list_all_saveDevice:
  "list_all P devs \<Longrightarrow> P d' \<Longrightarrow> list_all P (saveDevice devs d')"
  by (induction devs) auto

lemma list_all_removeDevice: "list_all P devs \<Longrightarrow> list_all P (removeDevice devs d)"
  by (induction devs) auto

lemma findById_list_all: "findById devs i = Some d \<Longrightarrow> list_all P devs \<Longrightarrow> P d"
  by (auto simp: list_all_iff dest: findById_SomeD)

text \<open>A property that every request preserves holds after any sequence of requests.\<close>

lemma run_invariant:
  assumes step: "\<And>devs r. I devs \<Longrightarrow> I (fst (handle tz lt devs r))"
    and init: "I devs"
  shows "I (run tz lt devs rs)"
  using init
proof (induction rs arbitrary: devs)
  case Nil
  then show ?case by simp
next
  case (Cons r rs)
  from Cons.prems have "I (fst (handle tz lt devs r))" by (rule step)
  then have "I (run tz lt (fst (handle tz lt devs r)) rs)" by (rule Cons.IH)
  then show ?case by simp
qed

section \<open>The feedback ledger\<close>

text \<open>
  C10. When \<open>removeFeedback\<close> succeeds, the stored ledger of the device is the old
  ledger without every entry of the reviewer (a filter, so all of them go, not only the
  first), the answer is that ledger, and no entry of the reviewer is left in it. The
  old ledger is arbitrary: it may hold several entries of the same reviewer.
\<close>

theorem removeFeedback_clears_reviewer:
  assumes "removeFeedback devs did uid = (devs', Inr b)"
  shows "\<exists>d d'. findById devs did = Some d \<and> findById devs' did = Some d'
           \<and> feedbacks d' = filter (\<lambda>f. fb_user f \<noteq> uid) (feedbacks d)
           \<and> b = FeedbacksBody (feedbacks d')
           \<and> \<not> list_ex (\<lambda>f. fb_user f = uid) (feedbacks d')"
proof (cases "findById devs did")
  case None
  with assms show ?thesis by (simp add: removeFeedback_def)
next
  case (Some d)
  let ?d' = "d\<lparr>feedbacks := filter (\<lambda>f. fb_user f \<noteq> uid) (feedbacks d)\<rparr>"
  from assms Some have res: "devs' = saveDevice devs ?d'" "b = FeedbacksBody (feedbacks ?d')"
    by (auto simp: removeFeedback_def Let_def split: if_splits)
  from Some have "dev_id ?d' = did" by (simp add: findById_SomeD)
  with Some have "findById (saveDevice devs ?d') did = Some ?d'"
    by (rule findById_saveDevice_same)
  with Some res show ?thesis by (simp add: list_ex_iff)
qed

text \<open>
  On a ledger with two entries of reviewer 7 around one of reviewer 8, both entries of
  reviewer 7 are removed.
\<close>

theorem removeFeedback_clears_reviewer_witness:
  "removeFeedback
     [phone\<lparr>feedbacks := [review 7 ''alice'' 4, review 8 ''bob'' 5, review 7 ''alice'' 1]\<rparr>] 1 7
   = ([phone\<lparr>feedbacks := [review 8 ''bob'' 5]\<rparr>], Inr (FeedbacksBody [review 8 ''bob'' 5]))
   \<and> (\<exists>d'. findById [phone\<lparr>feedbacks := [review 8 ''bob'' 5]\<rparr>] 1 = Some d'
         \<and> \<not> list_ex (\<lambda>f. fb_user f = 7) (feedbacks d'))"
proof -
  have r: "removeFeedback
     [phone\<lparr>feedbacks := [review 7 ''alice'' 4, review 8 ''bob'' 5, review 7 ''alice'' 1]\<rparr>] 1 7
   = ([phone\<lparr>feedbacks := [review 8 ''bob'' 5]\<rparr>], Inr (FeedbacksBody [review 8 ''bob'' 5]))"
    by (simp add: removeFeedback_def findById_def phone_def review_def)
  from removeFeedback_clears_reviewer [OF r] show ?thesis
    using r by blast
qed

text \<open>
  C5. For a device id that is not in the collection, neither feedback handler answers
  \<open>NotFound\<close>: both read \<^verbatim>\<open>device.feedbacks\<close> of \<^verbatim>\<open>null\<close>, the exception reaches
  the \<^verbatim>\<open>catch\<close> block, and the answer is \<open>ServerError\<close> (status 500). The handlers
  for removal, checkout and check-in test \<^verbatim>\<open>!device\<close> and answer 404.
\<close>

theorem feedback_absent_device_ServerError:
  assumes "findById devs did = None"
  shows "addFeedback us devs did uid rating txt now = (devs, Inl ServerError)
       \<and> removeFeedback devs did uid = (devs, Inl ServerError)"
  using assms by (simp add: addFeedback_def removeFeedback_def)

theorem feedback_absent_device_ServerError_witness:
  "addFeedback [alice] [phone] 2 7 (Some 4) None 2000 = ([phone], Inl ServerError)
   \<and> removeFeedback [phone] 2 7 = ([phone], Inl ServerError)
   \<and> http_status ServerError = 500 \<and> ServerError \<noteq> NotFound"
proof -
  have "findById [phone] 2 = None" by (simp add: findById_def phone_def)
  from feedback_absent_device_ServerError [OF this] show ?thesis by simp
qed

text \<open>
  C8. When \<open>addFeedback\<close> succeeds, the device was in the collection with no entry of
  the reviewer, the new entry \<open>e\<close> of the reviewer stands at the front of the stored and
  of the returned ledger, before the old entries in their old order, and
  \<open>removeFeedback\<close> for the same device and reviewer then succeeds, answers the ledger
  as it was before the addition and leaves the whole collection as it was before.
\<close>

theorem addFeedback_removeFeedback_roundtrip:
  assumes "addFeedback us devs did uid rating tx now = (devs1, Inr b)"
  shows "\<exists>d e. findById devs did = Some d
           \<and> \<not> list_ex (\<lambda>f. fb_user f = uid) (feedbacks d)
           \<and> fb_user e = uid
           \<and> b = FeedbacksBody (e # feedbacks d)
           \<and> findById devs1 did = Some (d\<lparr>feedbacks := e # feedbacks d\<rparr>)
           \<and> removeFeedback devs1 did uid = (devs, Inr (FeedbacksBody (feedbacks d)))"
proof (cases "findById devs did")
  case None
  with assms show ?thesis by (simp add: addFeedback_def)
next
  case found: (Some d)
  show ?thesis
  proof (cases "findUserById us uid")
    case None
    with assms found show ?thesis by (simp add: addFeedback_def split: if_splits)
  next
    case (Some u)
    define e where "e = \<lparr>fb_user = uid, fb_name = user_name u,
                     fb_rating = (case rating of None \<Rightarrow> 5 | Some r \<Rightarrow> r),
                     fb_text = tx, fb_date = now\<rparr>"
    define d1 where "d1 = d\<lparr>feedbacks := e # feedbacks d\<rparr>"
    from assms found Some have fresh: "\<not> list_ex (\<lambda>f. fb_user f = uid) (feedbacks d)"
      and devs1: "devs1 = saveDevice devs d1" and b: "b = FeedbacksBody (e # feedbacks d)"
      by (simp_all add: addFeedback_def Let_def e_def d1_def split: if_splits)
    from found have id: "dev_id d = did" by (auto dest: findById_SomeD)
    then have id1: "dev_id d1 = did" by (simp add: d1_def)
    with found have f1: "findById (saveDevice devs d1) did = Some d1"
      by (simp add: findById_saveDevice_same)
    from fresh have keep: "filter (\<lambda>f. fb_user f \<noteq> uid) (feedbacks d) = feedbacks d"
      by (simp add: list_ex_iff filter_id_conv)
    have e: "fb_user e = uid" by (simp add: e_def)
    with keep have "d1\<lparr>feedbacks := filter (\<lambda>f. fb_user f \<noteq> uid) (feedbacks d1)\<rparr> = d"
      by (simp add: d1_def)
    moreover from found id id1 have "saveDevice (saveDevice devs d1) d = devs"
      by (simp add: saveDevice_restore)
    moreover have "list_ex (\<lambda>f. fb_user f = uid) (feedbacks d1)"
      using e by (simp add: d1_def)
    ultimately have
      "removeFeedback (saveDevice devs d1) did uid = (devs, Inr (FeedbacksBody (feedbacks d)))"
      using f1 by (simp add: removeFeedback_def Let_def)
    with found fresh devs1 b f1 e show ?thesis
      by (intro exI [of _ d] exI [of _ e]) (simp add: d1_def)
  qed
qed

text \<open>Alice reviews the phone that bob has reviewed, and withdraws her review.\<close>

theorem addFeedback_removeFeedback_roundtrip_witness:
  "addFeedback [alice, bob] [reviewedPhone, tablet] 1 7 (Some 4) (Some ''good'') 3000
     = ([phone\<lparr>feedbacks := [alicesReview, review 8 ''bob'' 5]\<rparr>, tablet],
        Inr (FeedbacksBody [alicesReview, review 8 ''bob'' 5]))
   \<and> removeFeedback [phone\<lparr>feedbacks := [alicesReview, review 8 ''bob'' 5]\<rparr>, tablet] 1 7
     = ([reviewedPhone, tablet], Inr (FeedbacksBody [review 8 ''bob'' 5]))"
proof -
  have r: "addFeedback [alice, bob] [reviewedPhone, tablet] 1 7 (Some 4) (Some ''good'') 3000
     = ([phone\<lparr>feedbacks := [alicesReview, review 8 ''bob'' 5]\<rparr>, tablet],
        Inr (FeedbacksBody [alicesReview, review 8 ''bob'' 5]))"
    by (simp add: addFeedback_def findById_def findUserById_def Let_def sample_defs
        reviewedPhone_def alicesReview_def review_def)
  from addFeedback_removeFeedback_roundtrip [OF r] obtain d where
    d: "findById [reviewedPhone, tablet] 1 = Some d" and
    undo: "removeFeedback [phone\<lparr>feedbacks := [alicesReview, review 8 ''bob'' 5]\<rparr>, tablet] 1 7
      = ([reviewedPhone, tablet], Inr (FeedbacksBody (feedbacks d)))"
    by blast
  from d have "d = reviewedPhone"
    by (simp add: findById_def sample_defs reviewedPhone_def)
  then have "feedbacks d = [review 8 ''bob'' 5]"
    by (simp add: reviewedPhone_def)
  with r undo show ?thesis by simp
qed

text \<open>How each handler acts on the ledgers.\<close>

lemma reviews_register:
  "oneReviewEach devs \<Longrightarrow> oneReviewEach (fst (register us lt devs uid m o' mf newId))"
  by (simp add: register_def Let_def oneReviewEach_def split: option.splits)

lemma reviews_remove: "oneReviewEach devs \<Longrightarrow> oneReviewEach (fst (remove devs did uid))"
  by (simp add: remove_def oneReviewEach_def list_all_removeDevice split: option.splits)

lemma reviews_addFeedback:
  assumes "oneReviewEach devs"
  shows "oneReviewEach (fst (addFeedback us devs did uid rating tx now))"
proof (cases "findById devs did")
  case None
  with assms show ?thesis by (simp add: addFeedback_def)
next
  case (Some d)
  with assms have "distinct (map fb_user (feedbacks d))"
    unfolding oneReviewEach_def by (rule findById_list_all [rotated])
  then have "oneReviewEach (saveDevice devs (d\<lparr>feedbacks := e # feedbacks d\<rparr>))"
    if "fb_user e = uid" "\<not> list_ex (\<lambda>f. fb_user f = uid) (feedbacks d)" for e
    using that assms unfolding oneReviewEach_def
    by (intro list_all_saveDevice) (auto simp: list_ex_iff)
  with assms Some show ?thesis
    by (simp add: addFeedback_def Let_def split: option.splits)
qed

lemma reviews_removeFeedback:
  assumes "oneReviewEach devs"
  shows "oneReviewEach (fst (removeFeedback devs did uid))"
proof (cases "findById devs did")
  case None
  with assms show ?thesis by (simp add: removeFeedback_def)
next
  case (Some d)
  with assms have "distinct (map fb_user (feedbacks d))"
    unfolding oneReviewEach_def by (rule findById_list_all [rotated])
  then have "oneReviewEach
      (saveDevice devs (d\<lparr>feedbacks := filter (\<lambda>f. fb_user f \<noteq> uid) (feedbacks d)\<rparr>))"
    using assms unfolding oneReviewEach_def
    by (intro list_all_saveDevice) (simp_all add: distinct_map_filter)
  with assms Some show ?thesis
    by (simp add: removeFeedback_def Let_def)
qed

lemma reviews_checkOut:
  assumes "oneReviewEach devs"
  shows "oneReviewEach (fst (checkOut tz us devs did uid now))"
proof (cases "findById devs did")
  case None
  with assms show ?thesis by (simp add: checkOut_def Let_def)
next
  case (Some d)
  with assms have "distinct (map fb_user (feedbacks d))"
    unfolding oneReviewEach_def by (rule findById_list_all [rotated])
  then have "oneReviewEach (saveDevice devs (d\<lparr>isCheckedOut := True,
      lastCheckedOutBy := Some h, lastCheckedOutDate := Some now\<rparr>))" for h
    using assms unfolding oneReviewEach_def
    by (intro list_all_saveDevice) simp_all
  with assms Some show ?thesis
    by (simp add: checkOut_def Let_def split: option.splits)
qed

lemma reviews_checkIn:
  assumes "oneReviewEach devs"
  shows "oneReviewEach (fst (checkIn us devs did uid now))"
proof (cases "findById devs did")
  case None
  with assms show ?thesis by (simp add: checkIn_def)
next
  case (Some d)
  with assms have "distinct (map fb_user (feedbacks d))"
    unfolding oneReviewEach_def by (rule findById_list_all [rotated])
  then have "oneReviewEach (saveDevice devs (d\<lparr>isCheckedOut := False,
      lastCheckedInDate := Some now\<rparr>))"
    using assms unfolding oneReviewEach_def
    by (intro list_all_saveDevice) simp_all
  with assms Some show ?thesis
    by (simp add: checkIn_def Let_def split: option.splits)
qed

lemma reviews_handle:
  assumes inv: "oneReviewEach devs"
  shows "oneReviewEach (fst (handle tz lt devs r))"
proof (cases r)
  case (fields us now q)
  show ?thesis
  proof (cases q)
    case (Register uid m o' mf newId)
    with fields inv show ?thesis by (simp add: reviews_register)
  next
    case ListDevices
    with fields inv show ?thesis by (simp add: listDevices_def)
  next
    case (Remove did uid)
    with fields inv show ?thesis by (simp add: reviews_remove)
  next
    case (AddFeedback did uid rating tx)
    with fields inv show ?thesis by (simp add: reviews_addFeedback)
  next
    case (RemoveFeedback did uid)
    with fields inv show ?thesis by (simp add: reviews_removeFeedback)
  next
    case (CheckOut did uid)
    with fields inv show ?thesis by (simp add: reviews_checkOut)
  next
    case (CheckIn did uid)
    with fields inv show ?thesis by (simp add: reviews_checkIn)
  qed
qed

text \<open>
  C7. Every device has at most one feedback entry per reviewer at any time:
  \<^item> \<open>addFeedback\<close> for a reviewer who has an entry on the device answers
    \<open>DuplicateReview\<close> and leaves the collection, so the ledger, as it was;
  \<^item> every request keeps the ledgers free of a second entry of a reviewer;
  \<^item> so the ledgers are free of one after any sequence of requests on the empty pool.
\<close>

theorem one_review_per_reviewer:
  "(findById devs did = Some d \<and> list_ex (\<lambda>f. fb_user f = uid) (feedbacks d) \<longrightarrow>
      addFeedback us devs did uid rating tx now = (devs, Inl DuplicateReview))
   \<and> (oneReviewEach devs \<longrightarrow> oneReviewEach (fst (handle tz loadTime devs r)))
   \<and> oneReviewEach (run tz loadTime [] rs)"
proof (intro conjI impI)
  assume "findById devs did = Some d \<and> list_ex (\<lambda>f. fb_user f = uid) (feedbacks d)"
  then show "addFeedback us devs did uid rating tx now = (devs, Inl DuplicateReview)"
    by (simp add: addFeedback_def)
next
  assume "oneReviewEach devs"
  then show "oneReviewEach (fst (handle tz loadTime devs r))" by (rule reviews_handle)
next
  show "oneReviewEach (run tz loadTime [] rs)"
  proof (rule run_invariant [where I = oneReviewEach])
    show "oneReviewEach (fst (handle tz loadTime devs r))" if "oneReviewEach devs" for devs r
      using that by (rule reviews_handle)
    show "oneReviewEach []" by (simp add: oneReviewEach_def)
  qed
qed

text \<open>
  Bob, who has reviewed the phone, is refused a second review; alice's first review keeps
  the ledgers in order; and so does the sample sequence of reviews, whose answers are a
  registration, bob's review, the refusal of his second one, and alice's review.
\<close>

theorem one_review_per_reviewer_witness:
  "addFeedback [alice, bob] [reviewedPhone, tablet] 1 8 (Some 1) None 2500
     = ([reviewedPhone, tablet], Inl DuplicateReview)
   \<and> oneReviewEach (fst (handle 0 1000 [reviewedPhone, tablet]
         ([alice, bob], 3000, AddFeedback 1 7 (Some 4) (Some ''good''))))
   \<and> oneReviewEach (run 0 1000 [] reviewing)
   \<and> run 0 1000 [] reviewing = [phone\<lparr>feedbacks := [alicesReview, review 8 ''bob'' 5]\<rparr>]
   \<and> answers 0 1000 [] reviewing
       = [Inr (DeviceBody phone), Inr (FeedbacksBody [review 8 ''bob'' 5]),
          Inl DuplicateReview, Inr (FeedbacksBody [alicesReview, review 8 ''bob'' 5])]"
proof (intro conjI)
  show "addFeedback [alice, bob] [reviewedPhone, tablet] 1 8 (Some 1) None 2500
     = ([reviewedPhone, tablet], Inl DuplicateReview)"
    using one_review_per_reviewer [where devs = "[reviewedPhone, tablet]" and did = 1
        and d = reviewedPhone and uid = 8 and us = "[alice, bob]" and rating = "Some 1"
        and tx = None and now = 2500]
    by (simp add: findById_def sample_defs reviewedPhone_def review_def)
  show "oneReviewEach (fst (handle 0 1000 [reviewedPhone, tablet]
         ([alice, bob], 3000, AddFeedback 1 7 (Some 4) (Some ''good''))))"
    using one_review_per_reviewer [where devs = "[reviewedPhone, tablet]" and tz = 0
        and loadTime = 1000
        and r = "([alice, bob], 3000, AddFeedback 1 7 (Some 4) (Some ''good''))"]
    by (simp add: oneReviewEach_def sample_defs reviewedPhone_def review_def)
  show "oneReviewEach (run 0 1000 [] reviewing)"
    using one_review_per_reviewer [where tz = 0 and loadTime = 1000 and rs = reviewing]
    by simp
  show "run 0 1000 [] reviewing = [phone\<lparr>feedbacks := [alicesReview, review 8 ''bob'' 5]\<rparr>]"
    by (simp add: reviewing_def register_def addFeedback_def findById_def findUserById_def
        Let_def sample_defs alicesReview_def review_def)
  show "answers 0 1000 [] reviewing
       = [Inr (DeviceBody phone), Inr (FeedbacksBody [review 8 ''bob'' 5]),
          Inl DuplicateReview, Inr (FeedbacksBody [alicesReview, review 8 ''bob'' 5])]"
    by (simp add: reviewing_def register_def addFeedback_def findById_def findUserById_def
        Let_def sample_defs alicesReview_def review_def)
qed

section \<open>Checkout and check-in\<close>

text \<open>
  C1. \<open>checkOut\<close> makes its checks in this order, for every device collection:
  \<^enum> when the local hour of \<open>now\<close> is not between 15 and 17 inclusive, the answer is
    \<open>OutsideAdmissionWindow\<close>, whatever the devices and users are;
  \<^enum> otherwise, when \<open>did\<close> resolves to no device, \<open>NotFound\<close>;
  \<^enum> otherwise, when some device of the collection is checked out with
    \<open>lastCheckedOutBy\<close> the caller, \<open>UserAlreadyHolding\<close>;
  \<^enum> otherwise, when the target device is checked out, \<open>AlreadyCheckedOut\<close>;
  \<^enum> otherwise the target device is stored with \<open>isCheckedOut = True\<close>,
    \<open>lastCheckedOutBy\<close> the caller and \<open>lastCheckedOutDate = now\<close>, every other
    device is as before, and the answer is the full list of devices after the update.

  A failed check leaves the collection as it was. From the third check on the handler
  has looked the caller up in the user collection; \<open>findUserById us uid = Some u\<close> says
  that the authenticated caller is a stored user.
\<close>

theorem checkOut_checks_in_order:
  "(\<not> (15 \<le> getHours tz now \<and> getHours tz now \<le> 17) \<longrightarrow>
      checkOut tz us devs did uid now = (devs, Inl OutsideAdmissionWindow))
   \<and> (15 \<le> getHours tz now \<and> getHours tz now \<le> 17 \<and> findById devs did = None \<longrightarrow>
      checkOut tz us devs did uid now = (devs, Inl NotFound))
   \<and> (15 \<le> getHours tz now \<and> getHours tz now \<le> 17 \<and> findById devs did = Some d
        \<and> findUserById us uid = Some u
        \<and> list_ex (\<lambda>x. isCheckedOut x \<and> lastCheckedOutBy x = Some uid) devs \<longrightarrow>
      checkOut tz us devs did uid now = (devs, Inl UserAlreadyHolding))
   \<and> (15 \<le> getHours tz now \<and> getHours tz now \<le> 17 \<and> findById devs did = Some d
        \<and> findUserById us uid = Some u
        \<and> \<not> list_ex (\<lambda>x. isCheckedOut x \<and> lastCheckedOutBy x = Some uid) devs
        \<and> isCheckedOut d \<longrightarrow>
      checkOut tz us devs did uid now = (devs, Inl AlreadyCheckedOut))
   \<and> (15 \<le> getHours tz now \<and> getHours tz now \<le> 17 \<and> findById devs did = Some d
        \<and> findUserById us uid = Some u
        \<and> \<not> list_ex (\<lambda>x. isCheckedOut x \<and> lastCheckedOutBy x = Some uid) devs
        \<and> \<not> isCheckedOut d
        \<and> d' = d\<lparr>isCheckedOut := True, lastCheckedOutBy := Some uid,
                   lastCheckedOutDate := Some now\<rparr> \<longrightarrow>
      checkOut tz us devs did uid now
        = (saveDevice devs d', Inr (DevicesBody (saveDevice devs d')))
      \<and> findById (saveDevice devs d') did = Some d'
      \<and> (\<forall>j. j \<noteq> did \<longrightarrow> findById (saveDevice devs d') j = findById devs j)
      \<and> map dev_id (saveDevice devs d') = map dev_id devs)"
proof (intro conjI impI)
  assume "\<not> (15 \<le> getHours tz now \<and> getHours tz now \<le> 17)"
  then show "checkOut tz us devs did uid now = (devs, Inl OutsideAdmissionWindow)"
    by (auto simp: checkOut_def Let_def)
next
  assume "15 \<le> getHours tz now \<and> getHours tz now \<le> 17 \<and> findById devs did = None"
  then show "checkOut tz us devs did uid now = (devs, Inl NotFound)"
    by (simp add: checkOut_def Let_def)
next
  assume a: "15 \<le> getHours tz now \<and> getHours tz now \<le> 17 \<and> findById devs did = Some d
        \<and> findUserById us uid = Some u
        \<and> list_ex (\<lambda>x. isCheckedOut x \<and> lastCheckedOutBy x = Some uid) devs"
  then have "user_id u = uid" by (auto dest: findUserById_SomeD)
  with a have "findOneHeldBy devs (user_id u) \<noteq> None"
    by (simp add: findOneHeldBy_None_iff)
  with a show "checkOut tz us devs did uid now = (devs, Inl UserAlreadyHolding)"
    by (auto simp: checkOut_def Let_def)
next
  assume a: "15 \<le> getHours tz now \<and> getHours tz now \<le> 17 \<and> findById devs did = Some d
        \<and> findUserById us uid = Some u
        \<and> \<not> list_ex (\<lambda>x. isCheckedOut x \<and> lastCheckedOutBy x = Some uid) devs
        \<and> isCheckedOut d"
  then have "user_id u = uid" by (auto dest: findUserById_SomeD)
  with a have "findOneHeldBy devs (user_id u) = None"
    by (simp add: findOneHeldBy_None_iff)
  with a show "checkOut tz us devs did uid now = (devs, Inl AlreadyCheckedOut)"
    by (simp add: checkOut_def Let_def)
next
  assume a: "15 \<le> getHours tz now \<and> getHours tz now \<le> 17 \<and> findById devs did = Some d
        \<and> findUserById us uid = Some u
        \<and> \<not> list_ex (\<lambda>x. isCheckedOut x \<and> lastCheckedOutBy x = Some uid) devs
        \<and> \<not> isCheckedOut d
        \<and> d' = d\<lparr>isCheckedOut := True, lastCheckedOutBy := Some uid,
                   lastCheckedOutDate := Some now\<rparr>"
  then have u: "user_id u = uid" by (auto dest: findUserById_SomeD)
  with a have "findOneHeldBy devs (user_id u) = None"
    by (simp add: findOneHeldBy_None_iff)
  with a u show "checkOut tz us devs did uid now
        = (saveDevice devs d', Inr (DevicesBody (saveDevice devs d')))"
    by (simp add: checkOut_def Let_def findAllSorted_def)
  from a have id: "dev_id d' = did" by (auto dest: findById_SomeD)
  with a show "findById (saveDevice devs d') did = Some d'"
    by (simp add: findById_saveDevice_same)
  from id show "\<forall>j. j \<noteq> did \<longrightarrow> findById (saveDevice devs d') j = findById devs j"
    by (simp add: findById_saveDevice_other)
  show "map dev_id (saveDevice devs d') = map dev_id devs"
    by (rule map_dev_id_saveDevice)
qed

text \<open>
  The five outcomes on the sample pool, the server in UTC: at 20:00; at 16:00 for an
  unknown device; for alice, who holds the phone, asking for the tablet; for bob asking
  for the phone alice holds; and for alice asking for the free phone.
\<close>

theorem checkOut_checks_in_order_witness:
  "checkOut 0 [alice, bob] [phoneOut, tablet] 2 8 72000000
     = ([phoneOut, tablet], Inl OutsideAdmissionWindow)
   \<and> checkOut 0 [alice, bob] [phone, tablet] 3 7 57600000
     = ([phone, tablet], Inl NotFound)
   \<and> checkOut 0 [alice, bob] [phoneOut, tablet] 2 7 57600000
     = ([phoneOut, tablet], Inl UserAlreadyHolding)
   \<and> checkOut 0 [alice, bob] [phoneOut, tablet] 1 8 57600000
     = ([phoneOut, tablet], Inl AlreadyCheckedOut)
   \<and> checkOut 0 [alice, bob] [phone, tablet] 1 7 57600000
     = ([phoneOut, tablet], Inr (DevicesBody [phoneOut, tablet]))"
proof (intro conjI)
  show "checkOut 0 [alice, bob] [phoneOut, tablet] 2 8 72000000
     = ([phoneOut, tablet], Inl OutsideAdmissionWindow)"
    using checkOut_checks_in_order [where tz = 0 and now = 72000000 and us = "[alice, bob]"
        and devs = "[phoneOut, tablet]" and did = 2 and uid = 8]
    by (simp add: getHours_def)
  show "checkOut 0 [alice, bob] [phone, tablet] 3 7 57600000
     = ([phone, tablet], Inl NotFound)"
    using checkOut_checks_in_order [where tz = 0 and now = 57600000 and us = "[alice, bob]"
        and devs = "[phone, tablet]" and did = 3 and uid = 7]
    by (simp add: getHours_def findById_def sample_defs)
  show "checkOut 0 [alice, bob] [phoneOut, tablet] 2 7 57600000
     = ([phoneOut, tablet], Inl UserAlreadyHolding)"
    using checkOut_checks_in_order [where tz = 0 and now = 57600000 and us = "[alice, bob]"
        and devs = "[phoneOut, tablet]" and did = 2 and uid = 7 and d = tablet and u = alice]
    by (simp add: getHours_def findById_def findUserById_def sample_defs)
  show "checkOut 0 [alice, bob] [phoneOut, tablet] 1 8 57600000
     = ([phoneOut, tablet], Inl AlreadyCheckedOut)"
    using checkOut_checks_in_order [where tz = 0 and now = 57600000 and us = "[alice, bob]"
        and devs = "[phoneOut, tablet]" and did = 1 and uid = 8 and d = phoneOut and u = bob]
    by (simp add: getHours_def findById_def findUserById_def sample_defs)
  show "checkOut 0 [alice, bob] [phone, tablet] 1 7 57600000
     = ([phoneOut, tablet], Inr (DevicesBody [phoneOut, tablet]))"
    using checkOut_checks_in_order [where tz = 0 and now = 57600000 and us = "[alice, bob]"
        and devs = "[phone, tablet]" and did = 1 and uid = 7 and d = phone and u = alice
        and d' = phoneOut]
    by (simp add: getHours_def findById_def findUserById_def sample_defs)
qed

text \<open>
  C2. \<open>checkIn\<close> makes its checks in this order, for every device collection:
  \<^enum> when \<open>did\<close> resolves to no device, the answer is \<open>NotFound\<close>;
  \<^enum> otherwise, when the device is not checked out, \<open>NotCheckedOut\<close>;
  \<^enum> otherwise, when \<open>lastCheckedOutBy\<close> of the device is not the caller, \<open>NotHolder\<close>,
    and the collection is as it was;
  \<^enum> otherwise the device is stored with \<open>isCheckedOut = False\<close> and
    \<open>lastCheckedInDate = now\<close>, its \<open>lastCheckedOutBy\<close> is kept, every other device
    is as before, and the answer is the full list of devices after the update.

  The handler looks the caller up after the second check; \<open>findUserById us uid = Some u\<close>
  says that the authenticated caller is a stored user.
\<close>

theorem checkIn_checks_in_order:
  "(findById devs did = None \<longrightarrow> checkIn us devs did uid now = (devs, Inl NotFound))
   \<and> (findById devs did = Some d \<and> \<not> isCheckedOut d \<longrightarrow>
        checkIn us devs did uid now = (devs, Inl NotCheckedOut))
   \<and> (findById devs did = Some d \<and> isCheckedOut d \<and> findUserById us uid = Some u
        \<and> lastCheckedOutBy d \<noteq> Some uid \<longrightarrow>
        checkIn us devs did uid now = (devs, Inl NotHolder))
   \<and> (findById devs did = Some d \<and> isCheckedOut d \<and> findUserById us uid = Some u
        \<and> lastCheckedOutBy d = Some uid
        \<and> d' = d\<lparr>isCheckedOut := False, lastCheckedInDate := Some now\<rparr> \<longrightarrow>
        checkIn us devs did uid now
          = (saveDevice devs d', Inr (DevicesBody (saveDevice devs d')))
        \<and> lastCheckedOutBy d' = lastCheckedOutBy d
        \<and> findById (saveDevice devs d') did = Some d'
        \<and> (\<forall>j. j \<noteq> did \<longrightarrow> findById (saveDevice devs d') j = findById devs j)
        \<and> map dev_id (saveDevice devs d') = map dev_id devs)"
proof (intro conjI impI)
  assume "findById devs did = None"
  then show "checkIn us devs did uid now = (devs, Inl NotFound)"
    by (simp add: checkIn_def)
next
  assume "findById devs did = Some d \<and> \<not> isCheckedOut d"
  then show "checkIn us devs did uid now = (devs, Inl NotCheckedOut)"
    by (simp add: checkIn_def)
next
  assume a: "findById devs did = Some d \<and> isCheckedOut d \<and> findUserById us uid = Some u
        \<and> lastCheckedOutBy d \<noteq> Some uid"
  then have "user_id u = uid" by (auto dest: findUserById_SomeD)
  with a show "checkIn us devs did uid now = (devs, Inl NotHolder)"
    by (simp add: checkIn_def)
next
  assume a: "findById devs did = Some d \<and> isCheckedOut d \<and> findUserById us uid = Some u
        \<and> lastCheckedOutBy d = Some uid
        \<and> d' = d\<lparr>isCheckedOut := False, lastCheckedInDate := Some now\<rparr>"
  then have u: "user_id u = uid" by (auto dest: findUserById_SomeD)
  with a show "checkIn us devs did uid now
        = (saveDevice devs d', Inr (DevicesBody (saveDevice devs d')))"
    by (simp add: checkIn_def Let_def findAllSorted_def)
  from a show "lastCheckedOutBy d' = lastCheckedOutBy d" by simp
  from a have id: "dev_id d' = did" by (auto dest: findById_SomeD)
  with a show "findById (saveDevice devs d') did = Some d'"
    by (simp add: findById_saveDevice_same)
  from id show "\<forall>j. j \<noteq> did \<longrightarrow> findById (saveDevice devs d') j = findById devs j"
    by (simp add: findById_saveDevice_other)
  show "map dev_id (saveDevice devs d') = map dev_id devs"
    by (rule map_dev_id_saveDevice)
qed

text \<open>
  The four outcomes on the sample pool in which alice holds the phone: an unknown
  device; the tablet, which nobody holds; bob returning alice's phone; alice returning it.
\<close>

theorem checkIn_checks_in_order_witness:
  "checkIn [alice, bob] [phoneOut, tablet] 3 7 90000000 = ([phoneOut, tablet], Inl NotFound)
   \<and> checkIn [alice, bob] [phoneOut, tablet] 2 8 90000000
       = ([phoneOut, tablet], Inl NotCheckedOut)
   \<and> checkIn [alice, bob] [phoneOut, tablet] 1 8 90000000
       = ([phoneOut, tablet], Inl NotHolder)
   \<and> checkIn [alice, bob] [phoneOut, tablet] 1 7 90000000
       = ([phoneBack, tablet], Inr (DevicesBody [phoneBack, tablet]))
   \<and> lastCheckedOutBy phoneBack = Some 7"
proof (intro conjI)
  show "checkIn [alice, bob] [phoneOut, tablet] 3 7 90000000 = ([phoneOut, tablet], Inl NotFound)"
    using checkIn_checks_in_order [where us = "[alice, bob]" and devs = "[phoneOut, tablet]"
        and did = 3 and uid = 7 and now = 90000000]
    by (simp add: findById_def sample_defs)
  show "checkIn [alice, bob] [phoneOut, tablet] 2 8 90000000
       = ([phoneOut, tablet], Inl NotCheckedOut)"
    using checkIn_checks_in_order [where us = "[alice, bob]" and devs = "[phoneOut, tablet]"
        and did = 2 and uid = 8 and now = 90000000 and d = tablet]
    by (simp add: findById_def sample_defs)
  show "checkIn [alice, bob] [phoneOut, tablet] 1 8 90000000
       = ([phoneOut, tablet], Inl NotHolder)"
    using checkIn_checks_in_order [where us = "[alice, bob]" and devs = "[phoneOut, tablet]"
        and did = 1 and uid = 8 and now = 90000000 and d = phoneOut and u = bob]
    by (simp add: findById_def findUserById_def sample_defs)
  show "checkIn [alice, bob] [phoneOut, tablet] 1 7 90000000
       = ([phoneBack, tablet], Inr (DevicesBody [phoneBack, tablet]))"
    using checkIn_checks_in_order [where us = "[alice, bob]" and devs = "[phoneOut, tablet]"
        and did = 1 and uid = 7 and now = 90000000 and d = phoneOut and u = alice
        and d' = phoneBack]
    by (simp add: findById_def findUserById_def sample_defs phoneBack_def)
  show "lastCheckedOutBy phoneBack = Some 7"
    by (simp add: sample_defs phoneBack_def)
qed

section \<open>One device per holder\<close>

text \<open>
  How each handler changes the number of devices a user \<open>u\<close> holds, that is the
  documents matching the query of the checkout handler's scan.
\<close>

lemma held_register:
  "length (filter (heldBy u) (fst (register us lt devs uid m o' mf newId)))
     = length (filter (heldBy u) devs)"
  by (simp add: register_def Let_def heldBy_def split: option.splits)

lemma held_remove:
  "length (filter (heldBy u) (fst (remove devs did uid))) \<le> length (filter (heldBy u) devs)"
  by (simp add: remove_def filter_removeDevice_le split: option.splits)

lemma held_saveDevice_feedbacks:
  assumes "findById devs did = Some d"
  shows "length (filter (heldBy u) (saveDevice devs (d\<lparr>feedbacks := fs\<rparr>)))
           = length (filter (heldBy u) devs)"
  using filter_saveDevice_count [of devs "d\<lparr>feedbacks := fs\<rparr>" d "heldBy u"] assms
  by (auto simp: heldBy_def dest: findById_SomeD)

lemma held_addFeedback:
  "length (filter (heldBy u) (fst (addFeedback us devs did uid rating tx now)))
     = length (filter (heldBy u) devs)"
proof (cases "findById devs did")
  case None
  then show ?thesis by (simp add: addFeedback_def)
next
  case (Some d)
  then show ?thesis
    by (simp add: addFeedback_def Let_def held_saveDevice_feedbacks split: option.splits)
qed

lemma held_removeFeedback:
  "length (filter (heldBy u) (fst (removeFeedback devs did uid)))
     = length (filter (heldBy u) devs)"
proof (cases "findById devs did")
  case None
  then show ?thesis by (simp add: removeFeedback_def)
next
  case (Some d)
  then show ?thesis
    by (simp add: removeFeedback_def Let_def held_saveDevice_feedbacks)
qed

lemma held_checkIn:
  "length (filter (heldBy u) (fst (checkIn us devs did uid now)))
     \<le> length (filter (heldBy u) devs)"
proof (cases "findById devs did")
  case None
  then show ?thesis by (simp add: checkIn_def)
next
  case (Some d)
  let ?d' = "d\<lparr>isCheckedOut := False, lastCheckedInDate := Some now\<rparr>"
  have "length (filter (heldBy u) (saveDevice devs ?d')) \<le> length (filter (heldBy u) devs)"
    using filter_saveDevice_le [of "heldBy u" devs ?d'] by (simp add: heldBy_def)
  with Some show ?thesis
    by (simp add: checkIn_def Let_def split: option.splits)
qed

text \<open>
  The checkout handler is the one that can add a holding: it does so only after its scan
  found none for the caller.
\<close>

lemma held_checkOut:
  assumes "length (filter (heldBy u) devs) \<le> 1"
  shows "length (filter (heldBy u) (fst (checkOut tz us devs did uid now))) \<le> 1"
proof (cases "findById devs did")
  case None
  with assms show ?thesis by (simp add: checkOut_def Let_def)
next
  case found: (Some d)
  show ?thesis
  proof (cases "findUserById us uid")
    case None
    with assms found show ?thesis by (simp add: checkOut_def Let_def)
  next
    case (Some usr)
    let ?d' = "d\<lparr>isCheckedOut := True, lastCheckedOutBy := Some (user_id usr),
                  lastCheckedOutDate := Some now\<rparr>"
    have "length (filter (heldBy u) (saveDevice devs ?d')) \<le> 1"
      if free: "findOneHeldBy devs (user_id usr) = None"
    proof (cases "u = user_id usr")
      case True
      with free have "filter (heldBy u) devs = []" by (simp add: findOneHeldBy_None)
      with filter_saveDevice_le [of "heldBy u" devs ?d'] show ?thesis
        by (simp split: if_splits)
    next
      case False
      then have "\<not> heldBy u ?d'" by (auto simp: heldBy_def)
      with filter_saveDevice_le [of "heldBy u" devs ?d'] assms show ?thesis by simp
    qed
    with assms Some found show ?thesis
      by (simp add: checkOut_def Let_def split: option.splits)
  qed
qed

lemma held_handle:
  assumes inv: "length (filter (heldBy u) devs) \<le> 1"
  shows "length (filter (heldBy u) (fst (handle tz lt devs r))) \<le> 1"
proof (cases r)
  case (fields us now q)
  show ?thesis
  proof (cases q)
    case (Register uid m o' mf newId)
    with fields inv show ?thesis by (simp add: held_register)
  next
    case ListDevices
    with fields inv show ?thesis by (simp add: listDevices_def)
  next
    case (Remove did uid)
    with fields inv held_remove [of u devs did uid] show ?thesis by simp
  next
    case (AddFeedback did uid rating tx)
    with fields inv show ?thesis by (simp add: held_addFeedback)
  next
    case (RemoveFeedback did uid)
    with fields inv show ?thesis by (simp add: held_removeFeedback)
  next
    case (CheckOut did uid)
    with fields held_checkOut [OF inv, of tz us did uid now] show ?thesis by simp
  next
    case (CheckIn did uid)
    with fields inv held_checkIn [of u us devs did uid now] show ?thesis by simp
  qed
qed


text \<open>
  C3. In the collection reached from the empty pool by any sequence of requests
  (registrations, listings, removals, checkouts, check-ins, feedback added and removed,
  with any arguments, any user collection and any clock at each request), for every
  user \<open>u\<close> at most one device has \<open>isCheckedOut\<close> true and \<open>lastCheckedOutBy = u\<close>.
\<close>

theorem at_most_one_device_per_holder:
  "length (filter (\<lambda>d. isCheckedOut d \<and> lastCheckedOutBy d = Some u)
      (run tz loadTime [] rs)) \<le> 1"
proof -
  have "length (filter (heldBy u) (run tz loadTime [] rs)) \<le> 1"
  proof (rule run_invariant [where I = "\<lambda>devs. length (filter (heldBy u) devs) \<le> 1"])
    show "length (filter (heldBy u) (fst (handle tz loadTime devs r))) \<le> 1"
      if "length (filter (heldBy u) devs) \<le> 1" for devs r
      using that by (rule held_handle)
    show "length (filter (heldBy u) []) \<le> 1" by simp
  qed
  moreover have "(\<lambda>d. isCheckedOut d \<and> lastCheckedOutBy d = Some u) = heldBy u"
    by (auto simp: heldBy_def)
  ultimately show ?thesis by simp
qed

text \<open>
  On the sample afternoon alice takes the phone, is refused the tablet while she holds
  the phone, and bob is refused the phone: alice holds one device at the end.
\<close>

theorem at_most_one_device_per_holder_witness:
  "length (filter (\<lambda>d. isCheckedOut d \<and> lastCheckedOutBy d = Some 7)
      (run 0 1000 [] afternoon)) \<le> 1
   \<and> run 0 1000 [] afternoon = [phoneOut, tablet]
   \<and> answers 0 1000 [] afternoon
       = [Inr (DeviceBody phone), Inr (DeviceBody tablet),
          Inr (DevicesBody [phoneOut, tablet]), Inl UserAlreadyHolding, Inl AlreadyCheckedOut]"
proof (intro conjI)
  show "length (filter (\<lambda>d. isCheckedOut d \<and> lastCheckedOutBy d = Some 7)
      (run 0 1000 [] afternoon)) \<le> 1"
    by (rule at_most_one_device_per_holder)
  show "run 0 1000 [] afternoon = [phoneOut, tablet]"
    by (simp add: afternoon_def register_def checkOut_def findUserById_def findById_def
        findOneHeldBy_def heldBy_def getHours_def findAllSorted_def Let_def sample_defs)
  show "answers 0 1000 [] afternoon
       = [Inr (DeviceBody phone), Inr (DeviceBody tablet),
          Inr (DevicesBody [phoneOut, tablet]), Inl UserAlreadyHolding, Inl AlreadyCheckedOut]"
    by (simp add: afternoon_def register_def checkOut_def findUserById_def findById_def
        findOneHeldBy_def heldBy_def getHours_def findAllSorted_def Let_def sample_defs)
qed

section \<open>The registry\<close>

text \<open>
  C9. \<open>remove\<close> answers \<open>NotFound\<close> when \<open>did\<close> resolves to no device, and
  \<open>Forbidden\<close> when the caller is not \<open>registeredBy\<close> of the device found. Otherwise
  it deletes the document found, whatever \<open>isCheckedOut\<close> of the device is: the
  collection loses that one document, every other id resolves as before, and (ids being
  unique in the collection) \<open>did\<close> resolves no more.
\<close>

theorem remove_checks_in_order:
  "(findById devs did = None \<longrightarrow> remove devs did uid = (devs, Inl NotFound))
   \<and> (findById devs did = Some d \<and> registeredBy d \<noteq> uid \<longrightarrow>
        remove devs did uid = (devs, Inl Forbidden))
   \<and> (findById devs did = Some d \<and> registeredBy d = uid \<longrightarrow>
        remove devs did uid = (removeDevice devs d, Inr (MsgBody ''Device removed''))
        \<and> removeDevice devs d = remove1 d devs
        \<and> length (removeDevice devs d) + 1 = length devs
        \<and> (\<forall>j. j \<noteq> did \<longrightarrow> findById (removeDevice devs d) j = findById devs j)
        \<and> (distinct (map dev_id devs) \<longrightarrow> findById (removeDevice devs d) did = None))"
proof (intro conjI impI)
  assume "findById devs did = None"
  then show "remove devs did uid = (devs, Inl NotFound)" by (simp add: remove_def)
next
  assume "findById devs did = Some d \<and> registeredBy d \<noteq> uid"
  then show "remove devs did uid = (devs, Inl Forbidden)" by (simp add: remove_def)
next
  assume a: "findById devs did = Some d \<and> registeredBy d = uid"
  then show "remove devs did uid = (removeDevice devs d, Inr (MsgBody ''Device removed''))"
    by (simp add: remove_def)
  from a have id: "dev_id d = did" by (auto dest: findById_SomeD)
  with a have f: "findById devs (dev_id d) = Some d" by simp
  then show "removeDevice devs d = remove1 d devs" by (rule removeDevice_remove1)
  from f show "length (removeDevice devs d) + 1 = length devs" by (rule length_removeDevice)
  from id show "\<forall>j. j \<noteq> did \<longrightarrow> findById (removeDevice devs d) j = findById devs j"
    by (simp add: findById_removeDevice_other)
  from id show "distinct (map dev_id devs) \<Longrightarrow> findById (removeDevice devs d) did = None"
    by (auto simp: findById_removeDevice_same)
qed

text \<open>
  On a pool where the tablet, registered by bob, is checked out: an unknown device;
  alice removing the tablet; bob removing it while it is checked out.
\<close>

theorem remove_checks_in_order_witness:
  "remove [phone, tabletOut] 3 7 = ([phone, tabletOut], Inl NotFound)
   \<and> remove [phone, tabletOut] 2 7 = ([phone, tabletOut], Inl Forbidden)
   \<and> isCheckedOut tabletOut
   \<and> remove [phone, tabletOut] 2 8 = ([phone], Inr (MsgBody ''Device removed''))
   \<and> findById [phone] 2 = None \<and> findById [phone] 1 = Some phone"
proof (intro conjI)
  show "remove [phone, tabletOut] 3 7 = ([phone, tabletOut], Inl NotFound)"
    using remove_checks_in_order [where devs = "[phone, tabletOut]" and did = 3 and uid = 7]
    by (simp add: findById_def sample_defs tabletOut_def)
  show "remove [phone, tabletOut] 2 7 = ([phone, tabletOut], Inl Forbidden)"
    using remove_checks_in_order [where devs = "[phone, tabletOut]" and did = 2 and uid = 7
        and d = tabletOut]
    by (simp add: findById_def sample_defs tabletOut_def)
  show "isCheckedOut tabletOut" by (simp add: tabletOut_def)
  show "remove [phone, tabletOut] 2 8 = ([phone], Inr (MsgBody ''Device removed''))"
    using remove_checks_in_order [where devs = "[phone, tabletOut]" and did = 2 and uid = 8
        and d = tabletOut]
    by (simp add: findById_def sample_defs tabletOut_def)
  show "findById [phone] 2 = None" by (simp add: findById_def sample_defs)
  show "findById [phone] 1 = Some phone" by (simp add: findById_def sample_defs)
qed

text \<open>
  C6. A successful registration adds one device to the collection and answers it: the
  device is not checked out, has the generated id, which no stored device has, and has
  the given model, os and manufacturer and the caller as \<open>registeredBy\<close>. Its
  \<open>registeredDate\<close>, however, is \<open>loadTime\<close>, the clock when the schema was
  defined, and not \<open>now\<close>, the clock at the request: the schema's default is the value
  \<^verbatim>\<open>Date.now()\<close>, where the default of a feedback entry's \<^verbatim>\<open>date\<close> is the function
  \<^verbatim>\<open>Date.now\<close>.
\<close>

theorem register_stamps_schema_load_time:
  assumes "handle tz loadTime devs (us, now, Register uid m o' mf newId) = (devs', Inr b)"
  shows "\<exists>d. b = DeviceBody d \<and> devs' = devs @ [d]
           \<and> isCheckedOut d = False
           \<and> dev_id d = newId \<and> \<not> list_ex (\<lambda>x. dev_id x = newId) devs
           \<and> model d = m \<and> os d = o' \<and> manufacturer d = mf \<and> registeredBy d = uid
           \<and> registeredDate d = loadTime"
proof (cases "findUserById us uid")
  case None
  with assms show ?thesis by (simp add: register_def split: if_splits)
next
  case (Some u)
  define nd where "nd = \<lparr>dev_id = newId, model = m, os = o', manufacturer = mf,
                 lastCheckedOutBy = None, lastCheckedOutDate = None,
                 lastCheckedInDate = None, registeredBy = user_id u,
                 registeredDate = loadTime, isCheckedOut = False, feedbacks = []\<rparr>"
  from Some have uid: "user_id u = uid" by (rule findUserById_SomeD)
  from assms Some have "devs' = devs @ [nd]" and "b = DeviceBody nd"
    and "\<not> list_ex (\<lambda>x. dev_id x = newId) devs"
    by (simp_all add: register_def Let_def nd_def split: if_splits)
  with uid show ?thesis by (intro exI [of _ nd]) (simp add: nd_def)
qed

text \<open>A server started at time 1000 stamps a registration made at time 5000 with 1000.\<close>

theorem register_stamps_schema_load_time_witness:
  "handle 0 1000 [] ([alice], 5000, Register 7 ''Pixel'' ''Android'' ''Google'' 1)
     = ([phone], Inr (DeviceBody phone))
   \<and> registeredDate phone = 1000 \<and> registeredDate phone \<noteq> 5000"
proof -
  have r: "handle 0 1000 [] ([alice], 5000, Register 7 ''Pixel'' ''Android'' ''Google'' 1)
     = ([phone], Inr (DeviceBody phone))"
    by (simp add: register_def findUserById_def Let_def sample_defs)
  from register_stamps_schema_load_time [OF r] have "registeredDate phone = 1000" by simp
  with r show ?thesis by simp
qed

text \<open>The pool never grows past ten devices, and valid registrations fill it.\<close>

lemma length_handle_le:
  "length devs \<le> 10 \<Longrightarrow> length (fst (handle tz lt devs r)) \<le> 10"
proof (cases r)
  case (fields us now q)
  assume inv: "length devs \<le> 10"
  have rm: "length (removeDevice devs d) \<le> length devs" for d
    by (induction devs) auto
  have sv: "length (saveDevice devs d) = length devs" for d
    by (induction devs) auto
  show ?thesis
  proof (cases q)
    case (Register uid m o' mf newId)
    with fields inv show ?thesis
      by (simp add: register_def Let_def split: option.splits)
  next
    case ListDevices
    with fields inv show ?thesis by (simp add: listDevices_def)
  next
    case (Remove did uid)
    with fields inv rm show ?thesis
      by (auto simp: remove_def intro: order_trans split: option.splits)
  next
    case (AddFeedback did uid rating tx)
    with fields inv sv show ?thesis
      by (simp add: addFeedback_def Let_def split: option.splits)
  next
    case (RemoveFeedback did uid)
    with fields inv sv show ?thesis
      by (simp add: removeFeedback_def Let_def split: option.splits)
  next
    case (CheckOut did uid)
    with fields inv sv show ?thesis
      by (simp add: checkOut_def Let_def split: option.splits)
  next
    case (CheckIn did uid)
    with fields inv sv show ?thesis
      by (simp add: checkIn_def Let_def split: option.splits)
  qed
qed

lemma register_valid:
  assumes "isValidRegistration r" and "newIdOf r = Some i" and "i \<notin> dev_id ` set devs"
    and "length devs < 10"
  shows "succeeded (snd (handle tz lt devs r))
       \<and> map dev_id (fst (handle tz lt devs r)) = map dev_id devs @ [i]"
proof (cases r)
  case (fields us now q)
  with assms show ?thesis
    by (cases q) (auto simp: register_def Let_def succeeded_def list_ex_iff)
qed

lemma valid_registration_has_id: "isValidRegistration r \<Longrightarrow> newIdOf r \<noteq> None"
proof (cases r)
  case (fields us now q)
  assume "isValidRegistration r"
  with fields show ?thesis by (cases q) auto
qed

lemma registrations_succeed:
  assumes "list_all isValidRegistration rs" and "distinct (map newIdOf rs)"
    and "\<forall>i \<in> dev_id ` set devs. Some i \<notin> set (map newIdOf rs)"
    and "length devs + length rs \<le> 10"
  shows "list_all succeeded (answers tz lt devs rs)
       \<and> length (run tz lt devs rs) = length devs + length rs"
  using assms
proof (induction rs arbitrary: devs)
  case Nil
  then show ?case by simp
next
  case (Cons r rs)
  from Cons.prems obtain i where i: "newIdOf r = Some i"
    using valid_registration_has_id [of r] by auto
  with Cons.prems have fresh: "i \<notin> dev_id ` set devs" by auto
  from Cons.prems have "isValidRegistration r" and "length devs < 10" by simp_all
  from register_valid [OF this(1) i fresh this(2), of tz lt]
  have ok: "succeeded (snd (handle tz lt devs r))"
    and ids: "map dev_id (fst (handle tz lt devs r)) = map dev_id devs @ [i]"
    by simp_all
  from ids have len: "length (fst (handle tz lt devs r)) = length devs + 1"
    by (metis length_append_singleton length_map Suc_eq_plus1)
  from ids have set: "dev_id ` set (fst (handle tz lt devs r)) = insert i (dev_id ` set devs)"
    by (metis list.set_map set_append list.simps(15) Un_insert_right sup_bot.right_neutral
        empty_set)
  have "list_all succeeded (answers tz lt (fst (handle tz lt devs r)) rs)
       \<and> length (run tz lt (fst (handle tz lt devs r)) rs)
           = length (fst (handle tz lt devs r)) + length rs"
  proof (rule Cons.IH)
    from Cons.prems show "list_all isValidRegistration rs" by simp
    from Cons.prems show "distinct (map newIdOf rs)" by simp
    from Cons.prems i set
    show "\<forall>j \<in> dev_id ` set (fst (handle tz lt devs r)). Some j \<notin> set (map newIdOf rs)"
      by auto
    from Cons.prems len show "length (fst (handle tz lt devs r)) + length rs \<le> 10" by simp
  qed
  with ok len show ?case by simp
qed

text \<open>
  C4, as the code has it. The validators run before the capacity check, so:
  \<^item> a registration with non-empty model, os and manufacturer answers
    \<open>CapacityExceeded\<close> if and only if the collection holds 10 devices or more;
  \<^item> a registration with an empty field answers \<open>ValidationError\<close> at any count;
  \<^item> on the empty pool, any ten valid registrations with distinct generated ids all
    succeed and leave ten devices, and a registration with non-empty fields that follows
    them answers \<open>CapacityExceeded\<close> and leaves the collection as it was;
  \<^item> after any sequence of requests on the empty pool the collection holds at most
    10 devices.
\<close>

theorem register_capacity:
  "(m \<noteq> [] \<and> o' \<noteq> [] \<and> mf \<noteq> [] \<longrightarrow>
      (snd (register us loadTime devs uid m o' mf newId) = Inl CapacityExceeded
         \<longleftrightarrow> 10 \<le> length devs))
   \<and> (m = [] \<or> o' = [] \<or> mf = [] \<longrightarrow>
      register us loadTime devs uid m o' mf newId = (devs, Inl ValidationError))
   \<and> (list_all isValidRegistration regs \<and> distinct (map newIdOf regs) \<and> length regs = 10
        \<and> m \<noteq> [] \<and> o' \<noteq> [] \<and> mf \<noteq> [] \<longrightarrow>
      list_all succeeded (answers tz loadTime [] regs)
      \<and> length (run tz loadTime [] regs) = 10
      \<and> handle tz loadTime (run tz loadTime [] regs) (us, now, Register uid m o' mf newId)
          = (run tz loadTime [] regs, Inl CapacityExceeded))
   \<and> length (run tz loadTime [] rs) \<le> 10"
proof (intro conjI impI)
  assume "m \<noteq> [] \<and> o' \<noteq> [] \<and> mf \<noteq> []"
  then show "snd (register us loadTime devs uid m o' mf newId) = Inl CapacityExceeded
         \<longleftrightarrow> 10 \<le> length devs"
    by (auto simp: register_def Let_def split: option.splits)
next
  assume "m = [] \<or> o' = [] \<or> mf = []"
  then show "register us loadTime devs uid m o' mf newId = (devs, Inl ValidationError)"
    by (auto simp: register_def)
next
  assume a: "list_all isValidRegistration regs \<and> distinct (map newIdOf regs)
        \<and> length regs = 10 \<and> m \<noteq> [] \<and> o' \<noteq> [] \<and> mf \<noteq> []"
  then have r: "list_all succeeded (answers tz loadTime [] regs)
       \<and> length (run tz loadTime [] regs) = length ([] :: device list) + length regs"
    by (intro registrations_succeed) simp_all
  then show "list_all succeeded (answers tz loadTime [] regs)" by simp
  from r a show len: "length (run tz loadTime [] regs) = 10" by simp
  with a show "handle tz loadTime (run tz loadTime [] regs)
      (us, now, Register uid m o' mf newId) = (run tz loadTime [] regs, Inl CapacityExceeded)"
    by (simp add: register_def)
next
  show "length (run tz loadTime [] rs) \<le> 10"
  proof (rule run_invariant [where I = "\<lambda>devs. length devs \<le> 10"])
    show "length (fst (handle tz loadTime devs r)) \<le> 10" if "length devs \<le> 10" for devs r
      using that by (rule length_handle_le)
    show "length ([] :: device list) \<le> 10" by simp
  qed
qed

text \<open>
  A valid registration is refused on the full pool and not on a pool of one device; a
  registration with an empty os is refused by the validators; the ten sample
  registrations succeed and fill the pool, an eleventh is refused; and twenty
  registrations leave no more than ten devices.
\<close>

theorem register_capacity_witness:
  "snd (register [alice, bob] 1000 fullPool 8 ''iPad'' ''iOS'' ''Apple'' 11)
     = Inl CapacityExceeded
   \<and> snd (register [alice, bob] 1000 [phone] 8 ''iPad'' ''iOS'' ''Apple'' 2)
     \<noteq> Inl CapacityExceeded
   \<and> register [alice, bob] 1000 [phone] 8 ''iPad'' [] ''Apple'' 2 = ([phone], Inl ValidationError)
   \<and> list_all succeeded (answers 0 1000 [] tenRegistrations)
   \<and> length (run 0 1000 [] tenRegistrations) = 10
   \<and> handle 0 1000 (run 0 1000 [] tenRegistrations)
        ([alice, bob], 2000, Register 8 ''iPad'' ''iOS'' ''Apple'' 11)
       = (run 0 1000 [] tenRegistrations, Inl CapacityExceeded)
   \<and> run 0 1000 [] tenRegistrations = fullPool
   \<and> length (run 0 1000 [] (tenRegistrations @ tenRegistrations)) \<le> 10"
proof (intro conjI)
  show "snd (register [alice, bob] 1000 fullPool 8 ''iPad'' ''iOS'' ''Apple'' 11)
     = Inl CapacityExceeded"
    using register_capacity [where m = "''iPad''" and o' = "''iOS''" and mf = "''Apple''"
        and us = "[alice, bob]" and loadTime = 1000 and devs = fullPool and uid = 8
        and newId = 11]
    by (simp add: fullPool_def)
  show "snd (register [alice, bob] 1000 [phone] 8 ''iPad'' ''iOS'' ''Apple'' 2)
     \<noteq> Inl CapacityExceeded"
    using register_capacity [where m = "''iPad''" and o' = "''iOS''" and mf = "''Apple''"
        and us = "[alice, bob]" and loadTime = 1000 and devs = "[phone]" and uid = 8
        and newId = 2]
    by simp
  show "register [alice, bob] 1000 [phone] 8 ''iPad'' [] ''Apple'' 2
      = ([phone], Inl ValidationError)"
    using register_capacity [where m = "''iPad''" and o' = "[]" and mf = "''Apple''"
        and us = "[alice, bob]" and loadTime = 1000 and devs = "[phone]" and uid = 8
        and newId = 2]
    by simp
  have valid: "list_all isValidRegistration tenRegistrations
      \<and> distinct (map newIdOf tenRegistrations) \<and> length tenRegistrations = 10"
    by (simp add: tenRegistrations_def findUserById_def sample_defs)
  note scenario = register_capacity [where regs = tenRegistrations and m = "''iPad''"
      and o' = "''iOS''" and mf = "''Apple''" and tz = 0 and loadTime = 1000
      and us = "[alice, bob]" and now = 2000 and uid = 8 and newId = 11]
  from valid scenario show "list_all succeeded (answers 0 1000 [] tenRegistrations)"
    by simp
  from valid scenario show "length (run 0 1000 [] tenRegistrations) = 10"
    by simp
  from valid scenario show "handle 0 1000 (run 0 1000 [] tenRegistrations)
        ([alice, bob], 2000, Register 8 ''iPad'' ''iOS'' ''Apple'' 11)
       = (run 0 1000 [] tenRegistrations, Inl CapacityExceeded)"
    by simp
  show "run 0 1000 [] tenRegistrations = fullPool"
    by (simp add: tenRegistrations_def fullPool_def register_def findUserById_def Let_def
        sample_defs)
  show "length (run 0 1000 [] (tenRegistrations @ tenRegistrations)) \<le> 10"
    using register_capacity [where tz = 0 and loadTime = 1000
        and rs = "tenRegistrations @ tenRegistrations"]
    by simp
qed

text \<open>
  Without the condition on the fields the equivalence fails: on the full pool a
  registration with an empty model finds 10 devices stored and answers
  \<open>ValidationError\<close>, not \<open>CapacityExceeded\<close>.
\<close>

theorem register_capacity_counterexample:
  "10 \<le> length fullPool
   \<and> register [alice] 1000 fullPool 7 [] ''Android'' ''Google'' 11
       = (fullPool, Inl ValidationError)
   \<and> snd (register [alice] 1000 fullPool 7 [] ''Android'' ''Google'' 11)
       \<noteq> Inl CapacityExceeded"
  by (simp add: register_def fullPool_def)

end
